theory Spec2Isabelle
  imports Complex_Main "HOL-Library.Word" "HOL-Library.Sublist"
begin

section \<open>lineToMesh: turning a 3D polyline into a tube mesh\<close>

text \<open>
  A shallow embedding of \<^verbatim>\<open>processing/lineToMesh.py\<close> (visvis). The source is
  Python 2 with numpy: \<^verbatim>\<open>faces.shape[0]/4\<close> is an integer division there.

  Floating-point numbers (Python floats, numpy float32/float64) are idealised as
  \<^typ>\<open>real\<close>: every arithmetic operation is exact. Counting and control-flow properties do not
  depend on this; geometric equalities hold in exact arithmetic and only up to rounding in
  the running program.
\<close>

subsection \<open>Points and point sets\<close>

text \<open>
  Modelled from the spec: the classes \<^verbatim>\<open>Point\<close> and \<^verbatim>\<open>Pointset\<close> of
  \<^verbatim>\<open>visvis.pypoints\<close> are not part of the sources at hand. The spec treats them as
  an opaque 3-component vector with standard operations, and so does this model: a point has
  three coordinates, \<^verbatim>\<open>+\<close>, \<^verbatim>\<open>-\<close> and scalar \<^verbatim>\<open>*\<close> act coordinate-wise,
  \<^verbatim>\<open>cross\<close> is the vector product, \<^verbatim>\<open>norm\<close> the Euclidean length,
  \<^verbatim>\<open>distance\<close> the length of the difference, \<^verbatim>\<open>normalize\<close> divides by the length and
  \<^verbatim>\<open>==\<close> compares all three coordinates. A \<^verbatim>\<open>Pointset\<close> is a list of points, with
  the same operations applied to each element.

  Normalising the zero vector divides by zero: numpy yields NaN coordinates (and raises
  nothing), HOL yields the zero vector. No statement below relies on the value of such a
  division.
\<close>

datatype point = Point (px: real) (py: real) (pz: real)

text \<open>Modelled from the spec: \<^verbatim>\<open>p + q\<close>, \<^verbatim>\<open>p - q\<close> and \<^verbatim>\<open>k * p\<close> of points.\<close>

definition add :: "point \<Rightarrow> point \<Rightarrow> point" where
  "add p q = Point (px p + px q) (py p + py q) (pz p + pz q)"

definition sub :: "point \<Rightarrow> point \<Rightarrow> point" where
  "sub p q = Point (px p - px q) (py p - py q) (pz p - pz q)"

definition scale :: "real \<Rightarrow> point \<Rightarrow> point" where
  "scale k p = Point (k * px p) (k * py p) (k * pz p)"

text \<open>
  The scalar product. The source does not call it; the statements about orthogonal vectors
  are written with it.
\<close>

definition dot :: "point \<Rightarrow> point \<Rightarrow> real" where
  "dot p q = px p * px q + py p * py q + pz p * pz q"

text \<open>Modelled from the spec: \<^verbatim>\<open>p.cross(q)\<close>.\<close>

definition cross :: "point \<Rightarrow> point \<Rightarrow> point" where
  "cross p q = Point (py p * pz q - pz p * py q)
                     (pz p * px q - px p * pz q)
                     (px p * py q - py p * px q)"

text \<open>
  Modelled from the spec: \<^verbatim>\<open>p.norm()\<close>, \<^verbatim>\<open>p.distance(q)\<close> and
  \<^verbatim>\<open>p.normalize()\<close>.
\<close>

definition norm_pt :: "point \<Rightarrow> real" where
  "norm_pt p = sqrt (px p * px p + py p * py p + pz p * pz p)"

definition distance :: "point \<Rightarrow> point \<Rightarrow> real" where
  "distance p q = norm_pt (sub p q)"

definition normalize_pt :: "point \<Rightarrow> point" where
  "normalize_pt p = Point (px p / norm_pt p) (py p / norm_pt p) (pz p / norm_pt p)"

subsection \<open>Frame propagation and circle sampling\<close>

text \<open>
  \<^verbatim>\<open>getSpanVectors(normal, c, d)\<close>: \<^verbatim>\<open>c\<close> and \<^verbatim>\<open>d\<close> are the previous frame
  vectors. The candidate \<^verbatim>\<open>a1 = d.cross(normal)\<close> is replaced by
  \<^verbatim>\<open>c.cross(normal).cross(normal)\<close> when its length is below 0.001, then by its negation
  when that is strictly closer to \<^verbatim>\<open>c\<close>; \<^verbatim>\<open>b1 = a1.cross(normal)\<close>; both are
  normalised.
\<close>

definition getSpanVectors :: "point \<Rightarrow> point \<Rightarrow> point \<Rightarrow> point \<times> point" where
  "getSpanVectors normal c d =
     (let a1 = cross d normal;
          a1 = (if norm_pt a1 < 0.001
                then (let b1 = cross c normal in cross b1 normal)
                else a1);
          a2 = scale (-1) a1;
          a1 = (if distance c a1 > distance c a2 then a2 else a1);
          b1 = cross a1 normal
      in (normalize_pt a1, normalize_pt b1))"

text \<open>
  \<^verbatim>\<open>getCircle(angles_cos, angles_sin, a, b)\<close>: one point per angle,
  \<^verbatim>\<open>cos * a + sin * b\<close> in each coordinate. The two tables have the same length.
\<close>

definition getCircle :: "real list \<Rightarrow> real list \<Rightarrow> point \<Rightarrow> point \<Rightarrow> point list" where
  "getCircle angles_cos angles_sin a b =
     map (\<lambda>(co, si). Point (co * px a + si * px b) (co * py a + si * py b)
                            (co * pz a + si * pz b))
         (zip angles_cos angles_sin)"

subsection \<open>Face indices\<close>

text \<open>
  The tail of \<^verbatim>\<open>lineToMesh\<close> builds the quads. \<^verbatim>\<open>firstFace\<close> and
  \<^verbatim>\<open>lastFace\<close> are lists of Python integers; \<^verbatim>\<open>oneRound\<close> is converted to a numpy
  array of \<^verbatim>\<open>uint32\<close>, so its entries and those of \<^verbatim>\<open>faces\<close> are 32-bit words, and
  adding the offset \<^verbatim>\<open>i*vertex_num\<close> to the array is addition of 32-bit words. Both the
  conversion and the addition are taken modulo \<open>2\<^sup>3\<^sup>2\<close>, as numpy did silently when the
  source was written; an index of a mesh that fits into memory is far below that.
\<close>

type_synonym uint32 = "32 word"

definition py_range :: "int \<Rightarrow> int list" where
  "py_range n = map int [0..<nat n]"

definition firstFace :: "int \<Rightarrow> int list" where
  "firstFace vertex_num = [0, 1, vertex_num + 1, vertex_num]"

definition lastFace :: "int \<Rightarrow> int list" where
  "lastFace vertex_num = [vertex_num - 1, 0, vertex_num, 2 * vertex_num - 1]"

definition oneRound :: "int \<Rightarrow> uint32 list" where
  "oneRound vertex_num =
     map word_of_int
       (concat (map (\<lambda>i. map (\<lambda>val. val + i) (firstFace vertex_num))
                    (py_range (vertex_num - 1)))
        @ lastFace vertex_num)"

definition parts :: "nat \<Rightarrow> int \<Rightarrow> uint32 list list" where
  "parts n_cylinders vertex_num =
     map (\<lambda>i. map (\<lambda>w. w + word_of_int (i * vertex_num)) (oneRound vertex_num))
         (py_range (int n_cylinders - 1))"

text \<open>\<^verbatim>\<open>faces.shape = faces.shape[0]/4, 4\<close>: the flat array is cut into rows of four.\<close>

fun reshape4 :: "'a list \<Rightarrow> ('a \<times> 'a \<times> 'a \<times> 'a) list" where
  "reshape4 (w0 # w1 # w2 # w3 # ws) = (w0, w1, w2, w3) # reshape4 ws"
| "reshape4 _ = []"

datatype error =
    RadiiLenError  \<comment> \<open>\<^verbatim>\<open>ValueError('Len of radii much match len of points.')\<close>\<close>
  | EmptyReductionError  \<comment> \<open>numpy's \<^verbatim>\<open>ValueError\<close> for \<^verbatim>\<open>min\<close>/\<^verbatim>\<open>max\<close> of an empty array\<close>
  | EmptyConcatenateError  \<comment> \<open>numpy's \<^verbatim>\<open>ValueError\<close> for \<^verbatim>\<open>concatenate\<close> of no arrays\<close>
  | ZeroDivisionError  \<comment> \<open>\<^verbatim>\<open>pi*2/vertex_num\<close> with \<^verbatim>\<open>vertex_num = 0\<close>\<close>

definition build_faces :: "nat \<Rightarrow> int \<Rightarrow> error + (uint32 \<times> uint32 \<times> uint32 \<times> uint32) list" where
  "build_faces n_cylinders vertex_num =
     (let ps = parts n_cylinders vertex_num
      in if ps = [] then Inl EmptyConcatenateError
         else Inr (reshape4 (concat ps)))"

subsection \<open>The tube assembler\<close>

text \<open>
  Modelled from the spec: the result is \<^verbatim>\<open>BaseMesh(vertices, surfaceNormals, faces)\<close>;
  the class \<^verbatim>\<open>BaseMesh\<close> is not part of the sources at hand. The spec describes the
  mesh as a pure data payload of vertices, normals and quad faces, so it is a record of the
  three arrays here.
\<close>

record mesh =
  mesh_vertices :: "point list"
  mesh_normals :: "point list"
  mesh_faces :: "(uint32 \<times> uint32 \<times> uint32 \<times> uint32) list"

text \<open>
  \<^verbatim>\<open>radius\<close> is duck-typed: a value with \<^verbatim>\<open>__len__\<close> is a sequence of radii,
  anything else a number that is applied to every point.
\<close>

datatype radius_arg = Scalar real | Sequence "real list"

definition process_radius :: "radius_arg \<Rightarrow> nat \<Rightarrow> error + real list" where
  "process_radius radius len_pp =
     (case radius of
        Sequence rs \<Rightarrow> if length rs \<noteq> len_pp then Inl RadiiLenError else Inr rs
      | Scalar r \<Rightarrow> Inr (map (\<lambda>one. r * one) (replicate len_pp 1)))"

text \<open>
  \<^verbatim>\<open>np.arange(start, stop, step)\<close> has \<^verbatim>\<open>ceil((stop - start)/step)\<close> elements (none
  when that is not positive), the \<open>k\<close>-th being \<^verbatim>\<open>start + k*step\<close>.
\<close>

definition arange :: "real \<Rightarrow> real \<Rightarrow> real \<Rightarrow> real list" where
  "arange start stop step =
     map (\<lambda>k. start + real k * step) [0..<nat \<lceil>(stop - start) / step\<rceil>]"

definition calc_angles :: "int \<Rightarrow> real list" where
  "calc_angles vertex_num = arange 0 (pi * 2 - 0.0001) (pi * 2 / real_of_int vertex_num)"

text \<open>numpy's \<^verbatim>\<open>max()\<close> and \<^verbatim>\<open>min()\<close> of an array raise on an empty array.\<close>

definition np_max :: "real list \<Rightarrow> error + real" where
  "np_max xs = (if xs = [] then Inl EmptyReductionError else Inr (Max (set xs)))"

definition np_min :: "real list \<Rightarrow> error + real" where
  "np_min xs = (if xs = [] then Inl EmptyReductionError else Inr (Min (set xs)))"

text \<open>\<^verbatim>\<open>pp[1:].distance(pp[:-1])\<close>: the lengths of the line pieces.\<close>

definition calc_dists :: "point list \<Rightarrow> real list" where
  "calc_dists pp = map (\<lambda>(p, q). distance p q) (zip (tl pp) (butlast pp))"

text \<open>
  The tangents (lines 94 to 100): \<^verbatim>\<open>pp[1:] - pp[:-1]\<close>, one more element appended
  (\<^verbatim>\<open>pp[0]-pp[1]\<close> for a closed line, \<^verbatim>\<open>pp[-2]-pp[-1]\<close> otherwise), and then
  \<^verbatim>\<open>-1 * normals.normalize()\<close> applied to all of them.
\<close>

definition calc_normals :: "point list \<Rightarrow> bool \<Rightarrow> point list" where
  "calc_normals pp lclosed =
     (let normals = map (\<lambda>(p, q). sub p q) (zip (tl pp) (butlast pp));
          normals = normals @ [if lclosed then sub (pp ! 0) (pp ! 1)
                               else sub (pp ! (length pp - 2)) (pp ! (length pp - 1))]
      in map (\<lambda>p. scale (-1) (normalize_pt p)) normals)"

text \<open>The variables of \<^verbatim>\<open>lineToMesh\<close> that stay fixed once the tangents are known.\<close>

record env =
  e_pp :: "point list"
  e_radius :: "real list"
  e_angle_cos :: "real list"
  e_angle_sin :: "real list"
  e_bufdist :: real
  e_lclosed :: bool
  e_normals :: "point list"

text \<open>The variables that the loops update.\<close>

record build_state =
  st_a :: point
  st_b :: point
  st_circm :: "point list"
  st_vertices :: "point list"
  st_surfaceNormals :: "point list"
  st_n_cylinders :: nat

text \<open>\<^verbatim>\<open>float(k)*circm + pt\<close>: scale every point of the circle and translate it.\<close>

definition place :: "real \<Rightarrow> point list \<Rightarrow> point \<Rightarrow> point list" where
  "place k circm pt = map (\<lambda>p. add (scale k p) pt) circm"

text \<open>\<^verbatim>\<open>vertices.extend(..); surfaceNormals.extend(..); n_cylinders += 1\<close>\<close>

definition store :: "point list \<Rightarrow> point list \<Rightarrow> build_state \<Rightarrow> build_state" where
  "store circmp ns st =
     st\<lparr>st_vertices := st_vertices st @ circmp,
        st_surfaceNormals := st_surfaceNormals st @ ns,
        st_n_cylinders := st_n_cylinders st + 1\<rparr>"

text \<open>One pass of the loop over \<^verbatim>\<open>range(5,0,-1)\<close> that builds the half sphere at the start.\<close>

definition start_cap_step :: "env \<Rightarrow> nat \<Rightarrow> build_state \<Rightarrow> build_state" where
  "start_cap_step e j st =
     (let r = sqrt (1 - (real j / 5.0)\<^sup>2);
          circmp = place (r * e_radius e ! 0) (st_circm st)
                     (sub (e_pp e ! 0) (scale (real j / 5.0 * e_bufdist e) (e_normals e ! 0)));
          circmn = map (\<lambda>p. normalize_pt (sub p (e_pp e ! 0))) circmp
      in store circmp (map (scale (-1)) circmn) st)"

text \<open>
  One pass of the loop over the line pieces. The first component of the result tells
  whether the pass left the loop through \<^verbatim>\<open>break\<close>.
\<close>

definition sweep_body :: "env \<Rightarrow> nat \<Rightarrow> build_state \<Rightarrow> bool \<times> build_state" where
  "sweep_body e i st =
     (let normal1 = e_normals e ! i;
          point1 = e_pp e ! i;
          (a, b) = getSpanVectors normal1 (st_a st) (st_b st);
          circm = getCircle (e_angle_cos e) (e_angle_sin e) a b;
          st = st\<lparr>st_a := a, st_b := b, st_circm := circm\<rparr>;
          circmp = place (e_radius e ! i) circm (add point1 (scale (e_bufdist e) normal1));
          st = store circmp circm st;
          normal2 = e_normals e ! (i + 1);
          point2 = e_pp e ! (i + 1);
          circmp = place (e_radius e ! (i + 1)) circm (sub point2 (scale (e_bufdist e) normal1));
          st = store circmp circm st
      in if \<not> e_lclosed e \<and> int i = int (length (e_pp e)) - 2 then (True, st)
         else
           (let normal12 = normalize_pt (add normal1 normal2);
                tmp = add (add point2 (scale (e_bufdist e) normal2))
                          (sub point2 (scale (e_bufdist e) normal1));
                point12 = add (scale 0.5858 point2) (scale 0.4142 (scale 0.5 tmp));
                (a, b) = getSpanVectors normal12 (st_a st) (st_b st);
                circm = getCircle (e_angle_cos e) (e_angle_sin e) a b;
                st = st\<lparr>st_a := a, st_b := b, st_circm := circm\<rparr>;
                circmp = place (e_radius e ! (i + 1)) circm point12
            in (False, store circmp circm st)))"

fun sweep_loop :: "env \<Rightarrow> nat list \<Rightarrow> build_state \<Rightarrow> build_state" where
  "sweep_loop e [] st = st"
| "sweep_loop e (i # is) st =
     (case sweep_body e i st of
        (True, st') \<Rightarrow> st'
      | (False, st') \<Rightarrow> sweep_loop e is st')"

text \<open>One pass of the loop over \<^verbatim>\<open>range(0,6)\<close> that builds the half sphere at the end.\<close>

definition end_cap_step :: "env \<Rightarrow> nat \<Rightarrow> build_state \<Rightarrow> build_state" where
  "end_cap_step e j st =
     (let r = sqrt (1 - (real j / 5.0)\<^sup>2);
          circmp = place (r * last (e_radius e)) (st_circm st)
                     (add (last (e_pp e)) (scale (real j / 5.0 * e_bufdist e) (last (e_normals e))));
          circmn = map (\<lambda>p. normalize_pt (sub p (last (e_pp e)))) circmp
      in store circmp (map (scale (-1)) circmn) st)"

text \<open>The \<^verbatim>\<open>else\<close> branch at the end: the circle that closes a closed line.\<close>

definition closing_step :: "env \<Rightarrow> build_state \<Rightarrow> build_state" where
  "closing_step e st =
     (let normal1 = last (e_normals e);
          point1 = last (e_pp e);
          (a, b) = getSpanVectors normal1 (st_a st) (st_b st);
          circm = getCircle (e_angle_cos e) (e_angle_sin e) a b;
          st = st\<lparr>st_a := a, st_b := b, st_circm := circm\<rparr>;
          circmp = place (e_radius e ! 0) circm (add point1 (scale (e_bufdist e) normal1))
      in store circmp circm st)"

text \<open>The state at line 114, before the first ring is stored.\<close>

definition init_state :: "env \<Rightarrow> build_state" where
  "init_state e =
     (let (a, b) = getSpanVectors (e_normals e ! 0) (Point 0 0 1) (Point 0 1 0);
          circm = getCircle (e_angle_cos e) (e_angle_sin e) a b
      in \<lparr>st_a = a, st_b = b, st_circm = circm,
          st_vertices = [], st_surfaceNormals = [], st_n_cylinders = 0\<rparr>)"

text \<open>Lines 116 to 127: the half sphere at the start of an open line.\<close>

definition start_caps :: "env \<Rightarrow> build_state" where
  "start_caps e =
     (let st = init_state e
      in if \<not> e_lclosed e then fold (start_cap_step e) [5, 4, 3, 2, 1] st else st)"

text \<open>Lines 116 to 207: the rings of the whole tube.\<close>

definition assemble :: "env \<Rightarrow> build_state" where
  "assemble e =
     (let st = start_caps e;
          st = sweep_loop e [0..<length (e_pp e) - 1] st
      in if \<not> e_lclosed e then fold (end_cap_step e) [0..<6] st
         else closing_step e st)"

text \<open>
  Lines 70 to 100 evaluate, in this order: the radius check, the angles (a division by
  \<^verbatim>\<open>vertex_num\<close>), the distances, \<^verbatim>\<open>radius.max()\<close>, \<^verbatim>\<open>dists.min()\<close>, the
  closedness test \<^verbatim>\<open>pp[0]==pp[-1]\<close> and the tangents. When \<^verbatim>\<open>dists\<close> is not
  empty, the line has at least two points and every index used afterwards is in range.
\<close>

definition make_env :: "point list \<Rightarrow> radius_arg \<Rightarrow> int \<Rightarrow> error + env" where
  "make_env pp radius vertex_num =
     (case process_radius radius (length pp) of
        Inl err \<Rightarrow> Inl err
      | Inr radius \<Rightarrow>
          if vertex_num = 0 then Inl ZeroDivisionError
          else
            (let angles = calc_angles vertex_num;
                 dists = calc_dists pp
             in case np_max radius of
                  Inl err \<Rightarrow> Inl err
                | Inr radius_max \<Rightarrow>
                    (case np_min dists of
                       Inl err \<Rightarrow> Inl err
                     | Inr dists_min \<Rightarrow>
                         (let lclosed = (pp ! 0 = last pp)
                          in Inr \<lparr>e_pp = pp, e_radius = radius,
                                  e_angle_cos = map cos angles, e_angle_sin = map sin angles,
                                  e_bufdist = min radius_max (dists_min / 2.2),
                                  e_lclosed = lclosed,
                                  e_normals = calc_normals pp lclosed\<rparr>))))"

definition lineToMesh :: "point list \<Rightarrow> radius_arg \<Rightarrow> int \<Rightarrow> error + mesh" where
  "lineToMesh pp radius vertex_num =
     (case make_env pp radius vertex_num of
        Inl err \<Rightarrow> Inl err
      | Inr e \<Rightarrow>
          (let st = assemble e
           in case build_faces (st_n_cylinders st) vertex_num of
                Inl err \<Rightarrow> Inl err
              | Inr faces \<Rightarrow>
                  Inr \<lparr>mesh_vertices = st_vertices st,
                       mesh_normals = st_surfaceNormals st,
                       mesh_faces = faces\<rparr>))"

section \<open>Auxiliary notions\<close>

text \<open>
  The quads of round \<open>k\<close> for \<open>m\<close> vertices per ring: the quads
  \<open>(j, j + 1, m + j + 1, m + j)\<close> for \<open>j < m - 1\<close>, then the closing quad, all offset by
  \<open>k * m\<close>.
\<close>

definition quads_of_round :: "nat \<Rightarrow> nat \<Rightarrow> (uint32 \<times> uint32 \<times> uint32 \<times> uint32) list" where
  "quads_of_round m k =
     map (\<lambda>j. (of_nat (k * m + j), of_nat (k * m + j + 1),
                of_nat (k * m + m + j + 1), of_nat (k * m + m + j))) [0..<m - 1]
     @ [(of_nat (k * m + m - 1), of_nat (k * m), of_nat (k * m + m), of_nat (k * m + 2 * m - 1))]"

text \<open>The entries of a list of quads in a row: the inverse of \<^const>\<open>reshape4\<close>.\<close>

definition flat4 :: "('a \<times> 'a \<times> 'a \<times> 'a) list \<Rightarrow> 'a list" where
  "flat4 qs = concat (map (\<lambda>(w0, w1, w2, w3). [w0, w1, w2, w3]) qs)"

text \<open>The condition of the \<^verbatim>\<open>break\<close> in the sweep: the last piece of an open line.\<close>

definition is_last_open :: "env \<Rightarrow> nat \<Rightarrow> bool" where
  "is_last_open e i \<longleftrightarrow> \<not> e_lclosed e \<and> i + 2 = length (e_pp e)"

text \<open>
  The parts of one pass of the sweep, by name: the frame and the circle of the two rings of
  piece \<open>i\<close>, and the frame and the ring of the joint that follows them.
\<close>

definition seg_frame :: "env \<Rightarrow> nat \<Rightarrow> build_state \<Rightarrow> point \<times> point" where
  "seg_frame e i st = getSpanVectors (e_normals e ! i) (st_a st) (st_b st)"

definition seg_circm :: "env \<Rightarrow> nat \<Rightarrow> build_state \<Rightarrow> point list" where
  "seg_circm e i st = getCircle (e_angle_cos e) (e_angle_sin e) (fst (seg_frame e i st)) (snd (seg_frame e i st))"

definition joint_frame :: "env \<Rightarrow> nat \<Rightarrow> build_state \<Rightarrow> point \<times> point" where
  "joint_frame e i st = getSpanVectors (normalize_pt (add (e_normals e ! i) (e_normals e ! (i + 1))))
      (fst (seg_frame e i st)) (snd (seg_frame e i st))"

definition joint_ring :: "env \<Rightarrow> nat \<Rightarrow> build_state \<Rightarrow> point list" where
  "joint_ring e i st =
     place (e_radius e ! (i + 1))
       (getCircle (e_angle_cos e) (e_angle_sin e) (fst (joint_frame e i st)) (snd (joint_frame e i st)))
       (add (scale 0.5858 (e_pp e ! (i + 1)))
            (scale 0.4142 (scale 0.5
               (add (add (e_pp e ! (i + 1)) (scale (e_bufdist e) (e_normals e ! (i + 1))))
                    (sub (e_pp e ! (i + 1)) (scale (e_bufdist e) (e_normals e ! i)))))))"

text \<open>One pass of the sweep without its \<^verbatim>\<open>break\<close> flag.\<close>

definition sweep_step :: "env \<Rightarrow> nat \<Rightarrow> build_state \<Rightarrow> build_state" where
  "sweep_step e i st = snd (sweep_body e i st)"

text \<open>
  The invariant of the assembler: the current circle has \<open>m\<close> points and the vertex list
  holds \<open>m\<close> vertices for every ring counted by \<^verbatim>\<open>n_cylinders\<close>.
\<close>

definition rings_ok :: "nat \<Rightarrow> build_state \<Rightarrow> bool" where
  "rings_ok m st \<longleftrightarrow> length (st_circm st) = m \<and> length (st_vertices st) = st_n_cylinders st * m"

text \<open>Both angle tables have \<open>m\<close> entries.\<close>

definition tables_ok :: "nat \<Rightarrow> env \<Rightarrow> bool" where
  "tables_ok m e \<longleftrightarrow> length (e_angle_cos e) = m \<and> length (e_angle_sin e) = m"

text \<open>
  The two stages of \<^const>\<open>getSpanVectors\<close> before the normalisation: the choice between a
  vector and its negation, and the candidate with its fallback.
\<close>

definition pick_sign :: "point \<Rightarrow> point \<Rightarrow> point" where
  "pick_sign c a1 = (if distance c a1 > distance c (scale (-1) a1) then scale (-1) a1 else a1)"

definition candidate :: "point \<Rightarrow> point \<Rightarrow> point \<Rightarrow> point" where
  "candidate n c d = (if norm_pt (cross d n) < 0.001 then cross (cross c n) n else cross d n)"

text \<open>The \<open>k\<close>-th ring of a vertex list with \<open>m\<close> vertices per ring.\<close>

definition ring_at :: "nat \<Rightarrow> nat \<Rightarrow> 'a list \<Rightarrow> 'a list" where
  "ring_at m k vs = take m (drop (k * m) vs)"

text \<open>
  Concrete inputs: the three collinear points of the spec's example (open line, radius 1, 8
  vertices per ring) with the tables of that call, the shortest open line, and a closed unit
  square.
\<close>

definition example_curve :: "point list" where
  "example_curve = [Point 0 0 0, Point 0 0 1, Point 0 0 2]"

definition example_env :: env where
  "example_env = projr (make_env example_curve (Scalar 1) 8)"

definition two_points :: "point list" where
  "two_points = [Point 0 0 0, Point 0 0 1]"


section \<open>Lemmas\<close>

subsection \<open>The face list\<close>

lemma reshape4_flat4: "reshape4 (flat4 qs) = qs"
  by (induction qs) (auto simp: flat4_def)

lemma flat4_append: "flat4 (xs @ ys) = flat4 xs @ flat4 ys"
  by (simp add: flat4_def)

lemma flat4_concat: "flat4 (concat qss) = concat (map flat4 qss)"
  by (induction qss) (simp_all add: flat4_append, simp add: flat4_def)

lemma oneRound_flat4:
  assumes "1 \<le> m"
  shows "map (\<lambda>w. w + word_of_int (int k * int m)) (oneRound (int m)) = flat4 (quads_of_round m k)"
proof -
  have "nat (int m - 1) = m - 1" by simp
  then show ?thesis using assms
    by (simp add: oneRound_def quads_of_round_def flat4_def py_range_def firstFace_def lastFace_def
        map_concat comp_def algebra_simps of_nat_diff)
qed

lemma length_quads_of_round: "1 \<le> m \<Longrightarrow> length (quads_of_round m k) = m"
  by (simp add: quads_of_round_def)

lemma build_faces_eq:
  assumes "1 \<le> m" "2 \<le> n"
  shows "build_faces n (int m) = Inr (concat (map (quads_of_round m) [0..<n - 1]))"
proof -
  have n: "nat (int n - 1) = n - 1" by simp
  have "parts n (int m) = map (\<lambda>k. flat4 (quads_of_round m k)) [0..<n - 1]"
    using oneRound_flat4[OF assms(1)] by (simp add: parts_def py_range_def n comp_def)
  moreover have "[0..<n - 1] \<noteq> []" using assms(2) by simp
  moreover have "concat (map (\<lambda>k. flat4 (quads_of_round m k)) [0..<n - 1])
      = flat4 (concat (map (quads_of_round m) [0..<n - 1]))"
    by (simp add: flat4_concat comp_def)
  ultimately show ?thesis
    by (simp only: build_faces_def Let_def reshape4_flat4) simp
qed

lemma nth_concat_uniform:
  assumes "\<forall>xs \<in> set xss. length xs = m" "i < length xss" "j < m"
  shows "concat xss ! (i * m + j) = xss ! i ! j"
  using assms
proof (induction xss arbitrary: i)
  case Nil
  then show ?case by simp
next
  case (Cons xs xss)
  show ?case
  proof (cases i)
    case 0
    with Cons.prems show ?thesis by (simp add: nth_append)
  next
    case (Suc i')
    with Cons.prems have "concat xss ! (i' * m + j) = xss ! i' ! j"
      by (intro Cons.IH) auto
    with Suc Cons.prems show ?thesis by (simp add: nth_append add.assoc)
  qed
qed

lemma length_concat_uniform:
  "\<forall>xs \<in> set xss. length xs = m \<Longrightarrow> length (concat xss) = length xss * m"
  by (induction xss) auto

subsection \<open>Bounds on pi\<close>

lemma arctan_bounds:
  fixes x :: real
  assumes "0 \<le> x" "x \<le> 1"
  shows "(\<Sum>i<2 * n. (-1) ^ i * (1 / real (i * 2 + 1) * x ^ (i * 2 + 1))) \<le> arctan x"
    and "arctan x \<le> (\<Sum>i<2 * n + 1. (-1) ^ i * (1 / real (i * 2 + 1) * x ^ (i * 2 + 1)))"
proof -
  let ?a = "\<lambda>n. 1 / real (n * 2 + 1) * x ^ (n * 2 + 1)"
  have abs: "\<bar>x\<bar> \<le> 1" using assms by simp
  have zero: "?a \<longlonglongrightarrow> 0" by (rule zeroseq_arctan_series[OF abs])
  have pos: "0 \<le> ?a k" for k using assms by simp
  have mono: "?a (Suc k) \<le> ?a k" for k
  proof -
    have "x ^ (Suc k * 2 + 1) \<le> x ^ (k * 2 + 1)"
      using assms by (intro power_decreasing) auto
    moreover have "1 / real (Suc k * 2 + 1) \<le> 1 / real (k * 2 + 1)"
      by (simp add: field_simps)
    ultimately show ?thesis
      using assms by (intro mult_mono) auto
  qed
  have ser: "arctan x = (\<Sum>k. (-1) ^ k * ?a k)"
    by (rule arctan_series[OF abs])
  show "(\<Sum>i<2 * n. (-1) ^ i * ?a i) \<le> arctan x"
    unfolding ser by (rule summable_Leibniz'(2)[OF zero pos mono])
  show "arctan x \<le> (\<Sum>i<2 * n + 1. (-1) ^ i * ?a i)"
    unfolding ser by (rule summable_Leibniz'(4)[OF zero pos mono])
qed

lemma pi_bounds: "3.14159 < pi" "pi < 3.1416"
proof -
  have s4: "(\<Sum>i<4. (-1) ^ i * (1 / real (i * 2 + 1) * (1/5) ^ (i * 2 + 1))) = (323852/1640625 :: real)"
    by (simp add: lessThan_nat_numeral lessThan_Suc power_divide)
  have s5: "(\<Sum>i<5. (-1) ^ i * (1 / real (i * 2 + 1) * (1/5) ^ (i * 2 + 1))) = (24288907/123046875 :: real)"
    by (simp add: lessThan_nat_numeral lessThan_Suc power_divide)
  have s2: "(\<Sum>i<2. (-1) ^ i * (1 / real (i * 2 + 1) * (1/239) ^ (i * 2 + 1))) = (171362/40955757 :: real)"
    by (simp add: lessThan_nat_numeral lessThan_Suc power_divide)
  have s1: "(\<Sum>i<1. (-1) ^ i * (1 / real (i * 2 + 1) * (1/239) ^ (i * 2 + 1))) = (1/239 :: real)"
    by simp
  have l5: "323852/1640625 \<le> arctan (1/5 :: real)"
    using arctan_bounds(1)[of "1/5" 2] unfolding s4[symmetric] by simp
  have u5: "arctan (1/5 :: real) \<le> 24288907/123046875"
    using arctan_bounds(2)[of "1/5" 2] unfolding s5[symmetric] by simp
  have l239: "171362/40955757 \<le> arctan (1/239 :: real)"
    using arctan_bounds(1)[of "1/239" 1] unfolding s2[symmetric] by simp
  have u239: "arctan (1/239 :: real) \<le> 1/239"
    using arctan_bounds(2)[of "1/239" 0] by simp
  have m: "pi = 16 * arctan (1/5) - 4 * arctan (1/239)"
    using machin by simp
  have "314159 / 100000 < 16 * arctan (1/5 :: real) - 4 * arctan (1/239)"
    using l5 u239 by linarith
  then show "3.14159 < pi"
    unfolding m by simp
  have "16 * arctan (1/5 :: real) - 4 * arctan (1/239) < 31416 / 10000"
    using u5 l239 by linarith
  then show "pi < 3.1416"
    unfolding m by simp
qed

subsection \<open>The steps of the assembler\<close>

lemma length_getCircle [simp]:
  "length (getCircle cs sn a b) = min (length cs) (length sn)"
  by (simp add: getCircle_def)

lemma length_place [simp]: "length (place k circm pt) = length circm"
  by (simp add: place_def)

lemma store_simps [simp]:
  "st_vertices (store c ns st) = st_vertices st @ c"
  "st_surfaceNormals (store c ns st) = st_surfaceNormals st @ ns"
  "st_n_cylinders (store c ns st) = Suc (st_n_cylinders st)"
  "st_circm (store c ns st) = st_circm st"
  "st_a (store c ns st) = st_a st"
  "st_b (store c ns st) = st_b st"
  by (simp_all add: store_def)

lemma start_cap_step_simps:
  "st_vertices (start_cap_step e j st) = st_vertices st @
     place (sqrt (1 - (real j / 5)\<^sup>2) * e_radius e ! 0) (st_circm st)
       (sub (e_pp e ! 0) (scale (real j / 5 * e_bufdist e) (e_normals e ! 0)))"
  "st_n_cylinders (start_cap_step e j st) = Suc (st_n_cylinders st)"
  "st_circm (start_cap_step e j st) = st_circm st"
  "st_a (start_cap_step e j st) = st_a st"
  "st_b (start_cap_step e j st) = st_b st"
  by (simp_all add: start_cap_step_def Let_def)

lemma end_cap_step_simps:
  "st_vertices (end_cap_step e j st) = st_vertices st @
     place (sqrt (1 - (real j / 5)\<^sup>2) * last (e_radius e)) (st_circm st)
       (add (last (e_pp e)) (scale (real j / 5 * e_bufdist e) (last (e_normals e))))"
  "st_n_cylinders (end_cap_step e j st) = Suc (st_n_cylinders st)"
  "st_circm (end_cap_step e j st) = st_circm st"
  "st_a (end_cap_step e j st) = st_a st"
  "st_b (end_cap_step e j st) = st_b st"
  by (simp_all add: end_cap_step_def Let_def)

lemma sweep_body_fst: "fst (sweep_body e i st) = is_last_open e i"
  by (auto simp: sweep_body_def is_last_open_def Let_def split_beta)

lemma sweep_body_vertices:
  "st_vertices (snd (sweep_body e i st)) =
     st_vertices st
     @ place (e_radius e ! i) (seg_circm e i st) (add (e_pp e ! i) (scale (e_bufdist e) (e_normals e ! i)))
     @ place (e_radius e ! (i + 1)) (seg_circm e i st) (sub (e_pp e ! (i + 1)) (scale (e_bufdist e) (e_normals e ! i)))
     @ (if is_last_open e i then [] else joint_ring e i st)"
  by (simp add: sweep_body_def is_last_open_def Let_def split_beta seg_circm_def seg_frame_def
      joint_ring_def joint_frame_def)

lemma sweep_body_n_cylinders:
  "st_n_cylinders (snd (sweep_body e i st)) =
     st_n_cylinders st + (if is_last_open e i then 2 else 3)"
  by (simp add: sweep_body_def is_last_open_def Let_def split_beta)

lemma sweep_body_circm:
  "length (st_circm (snd (sweep_body e i st))) = min (length (e_angle_cos e)) (length (e_angle_sin e))"
  by (simp add: sweep_body_def Let_def split_beta)

subsection \<open>The loop over the line pieces and the number of rings\<close>

lemma sweep_loop_fold:
  "(\<forall>i \<in> set (butlast is). \<not> is_last_open e i) \<Longrightarrow>
   sweep_loop e is st = fold (sweep_step e) is st"
proof (induction "is" arbitrary: st)
  case Nil
  then show ?case by simp
next
  case (Cons i "is")
  obtain brk st' where sb: "sweep_body e i st = (brk, st')"
    by (cases "sweep_body e i st")
  have brk: "brk = is_last_open e i"
    using sweep_body_fst[of e i st] sb by simp
  show ?case
  proof (cases "is = []")
    case True
    then show ?thesis using sb by (cases brk) (simp_all add: sweep_step_def)
  next
    case False
    with Cons.prems have "\<not> is_last_open e i" and "\<forall>i \<in> set (butlast is). \<not> is_last_open e i"
      by auto
    then show ?thesis using sb brk Cons.IH by (simp add: sweep_step_def)
  qed
qed

lemma sweep_loop_upt:
  assumes "n < length (e_pp e)"
  shows "sweep_loop e [0..<n] st = fold (sweep_step e) [0..<n] st"
proof (rule sweep_loop_fold, rule ballI)
  fix i assume "i \<in> set (butlast [0..<n])"
  then have "i < n - 1" by (cases n) (simp_all del: upt_Suc add: upt_Suc_append)
  with assms show "\<not> is_last_open e i" by (auto simp: is_last_open_def)
qed

lemma rings_ok_init: "tables_ok m e \<Longrightarrow> rings_ok m (init_state e)"
  by (simp add: rings_ok_def tables_ok_def init_state_def split_beta)

lemma init_state_n [simp]: "st_n_cylinders (init_state e) = 0"
  by (simp add: init_state_def split_beta)

lemma rings_ok_start_cap_step: "rings_ok m st \<Longrightarrow> rings_ok m (start_cap_step e j st)"
  by (simp add: rings_ok_def start_cap_step_simps)

lemma rings_ok_end_cap_step: "rings_ok m st \<Longrightarrow> rings_ok m (end_cap_step e j st)"
  by (simp add: rings_ok_def end_cap_step_simps)

lemma rings_ok_fold:
  assumes "\<And>j st. rings_ok m st \<Longrightarrow> rings_ok m (f j st)"
  shows "rings_ok m st \<Longrightarrow> rings_ok m (fold f js st)"
  by (induction js arbitrary: st) (simp_all add: assms)

lemma n_fold:
  assumes "\<And>j st. st_n_cylinders (f j st) = Suc (st_n_cylinders st)"
  shows "st_n_cylinders (fold f js st) = st_n_cylinders st + length js"
  by (induction js arbitrary: st) (simp_all add: assms)

lemma rings_ok_body: "tables_ok m e \<Longrightarrow> rings_ok m st \<Longrightarrow> rings_ok m (sweep_step e i st)"
  by (simp add: rings_ok_def tables_ok_def sweep_step_def sweep_body_vertices sweep_body_n_cylinders
      sweep_body_circm seg_circm_def joint_ring_def algebra_simps)

lemma closing_step_simps:
  "st_vertices (closing_step e st) = st_vertices st @
     place (e_radius e ! 0)
       (getCircle (e_angle_cos e) (e_angle_sin e)
          (fst (getSpanVectors (last (e_normals e)) (st_a st) (st_b st)))
          (snd (getSpanVectors (last (e_normals e)) (st_a st) (st_b st))))
       (add (last (e_pp e)) (scale (e_bufdist e) (last (e_normals e))))"
  "st_n_cylinders (closing_step e st) = Suc (st_n_cylinders st)"
  by (simp_all add: closing_step_def Let_def split_beta)

lemma rings_ok_closing_step: "tables_ok m e \<Longrightarrow> rings_ok m st \<Longrightarrow> rings_ok m (closing_step e st)"
  by (simp add: rings_ok_def tables_ok_def closing_step_simps) (simp add: closing_step_def Let_def split_beta)

lemma start_caps_n: "st_n_cylinders (start_caps e) = (if e_lclosed e then 0 else 5)"
  by (simp add: start_caps_def Let_def start_cap_step_simps)

lemma rings_ok_start_caps: "tables_ok m e \<Longrightarrow> rings_ok m (start_caps e)"
  by (simp add: start_caps_def Let_def rings_ok_init rings_ok_start_cap_step)

lemma body_n_upt:
  "n + 1 < length (e_pp e) \<or> e_lclosed e \<Longrightarrow>
   st_n_cylinders (fold (sweep_step e) [0..<n] st) = st_n_cylinders st + 3 * n"
proof (induction n)
  case 0
  then show ?case by simp
next
  case (Suc n)
  then have "\<not> is_last_open e n" by (auto simp: is_last_open_def)
  with Suc show ?case by (auto simp: sweep_step_def sweep_body_n_cylinders)
qed

lemma body_n_open_all:
  assumes "\<not> e_lclosed e" "2 \<le> length (e_pp e)"
  shows "st_n_cylinders (fold (sweep_step e) [0..<length (e_pp e) - 1] st)
         = st_n_cylinders st + 3 * (length (e_pp e) - 2) + 2"
proof -
  obtain n where n: "length (e_pp e) = Suc (Suc n)"
    using assms(2) by (metis Suc_le_D numeral_2_eq_2 Suc_le_mono)
  have "is_last_open e n" using assms(1) n by (simp add: is_last_open_def)
  moreover have "st_n_cylinders (fold (sweep_step e) [0..<n] st) = st_n_cylinders st + 3 * n"
    using n by (intro body_n_upt) simp
  ultimately show ?thesis
    using n by (simp add: sweep_step_def sweep_body_n_cylinders)
qed

lemma rings_ok_assemble: "tables_ok m e \<Longrightarrow> 1 \<le> length (e_pp e) \<Longrightarrow> rings_ok m (assemble e)"
  by (simp add: assemble_def Let_def sweep_loop_upt rings_ok_fold rings_ok_body rings_ok_start_caps
      rings_ok_end_cap_step rings_ok_closing_step)

lemma assemble_n:
  assumes "2 \<le> length (e_pp e)"
  shows "st_n_cylinders (assemble e) =
     (if e_lclosed e then 3 * (length (e_pp e) - 1) + 1
      else 5 + 2 * (length (e_pp e) - 1) + (length (e_pp e) - 2) + 6)"
proof (cases "e_lclosed e")
  case True
  then show ?thesis using assms
    by (simp add: assemble_def Let_def sweep_loop_upt body_n_upt closing_step_simps start_caps_n)
next
  case False
  then show ?thesis using assms body_n_open_all[OF False assms]
    by (simp add: assemble_def Let_def sweep_loop_upt n_fold end_cap_step_simps start_caps_n)
qed

subsection \<open>Vector algebra\<close>

lemma norm_pt_sq: "(norm_pt p)\<^sup>2 = dot p p"
  by (simp add: norm_pt_def dot_def)

lemma norm_pt_nonneg [simp]: "0 \<le> norm_pt p"
  by (simp add: norm_pt_def)

lemma norm_pt_eq_1_iff: "norm_pt p = 1 \<longleftrightarrow> dot p p = 1"
  by (simp add: norm_pt_def dot_def)

lemma norm_pt_pos_iff: "0 < norm_pt p \<longleftrightarrow> 0 < dot p p"
  by (simp add: norm_pt_def dot_def)

lemma dot_cross_left [simp]: "dot (cross p q) p = 0"
  by (simp add: dot_def cross_def algebra_simps)

lemma dot_cross_right [simp]: "dot (cross p q) q = 0"
  by (simp add: dot_def cross_def algebra_simps)

lemma dot_commute: "dot p q = dot q p"
  by (simp add: dot_def mult.commute)

lemma dot_scale_left [simp]: "dot (scale k p) q = k * dot p q"
  by (simp add: dot_def scale_def algebra_simps)

lemma dot_normalize_left: "dot (normalize_pt p) q = dot p q / norm_pt p"
  by (simp add: dot_def normalize_pt_def add_divide_distrib)

lemma dot_normalize_right: "dot q (normalize_pt p) = dot q p / norm_pt p"
  by (simp add: dot_def normalize_pt_def add_divide_distrib)

lemma norm_normalize: "0 < dot p p \<Longrightarrow> norm_pt (normalize_pt p) = 1"
proof -
  assume pos: "0 < dot p p"
  then have n: "0 < norm_pt p" by (simp add: norm_pt_pos_iff)
  have "dot (normalize_pt p) (normalize_pt p) = dot p p / (norm_pt p)\<^sup>2"
    by (simp add: dot_normalize_left dot_normalize_right power2_eq_square)
  also have "\<dots> = 1" using pos by (simp add: norm_pt_sq)
  finally show ?thesis by (simp add: norm_pt_eq_1_iff)
qed

text \<open>Lagrange's identity.\<close>

lemma dot_cross_cross: "dot (cross p q) (cross p q) = dot p p * dot q q - (dot p q)\<^sup>2"
  by (simp add: dot_def cross_def power2_eq_square algebra_simps)

text \<open>Bessel's inequality for two orthonormal vectors.\<close>

lemma bessel2:
  assumes "dot c c = 1" "dot d d = 1" "dot c d = 0"
  shows "(dot n c)\<^sup>2 + (dot n d)\<^sup>2 \<le> dot n n"
proof -
  let ?r = "sub (sub n (scale (dot n c) c)) (scale (dot n d) d)"
  have "0 \<le> dot ?r ?r" by (simp add: dot_def)
  also have "dot ?r ?r = dot n n - 2 * dot n c * dot n c - 2 * dot n d * dot n d
      + (dot n c)\<^sup>2 * dot c c + (dot n d)\<^sup>2 * dot d d + 2 * dot n c * dot n d * dot c d"
    by (simp add: dot_def sub_def scale_def power2_eq_square algebra_simps)
  also have "\<dots> = dot n n - (dot n c)\<^sup>2 - (dot n d)\<^sup>2"
    using assms by (simp add: power2_eq_square)
  finally show ?thesis by simp
qed

subsection \<open>The frame of getSpanVectors\<close>

lemma distance_neg_iff: "distance c p \<le> distance c (scale (-1) p) \<longleftrightarrow> 0 \<le> dot c p"
proof -
  have "distance c p \<le> distance c (scale (-1) p) \<longleftrightarrow>
        dot (sub c p) (sub c p) \<le> dot (sub c (scale (-1) p)) (sub c (scale (-1) p))"
    by (simp add: distance_def norm_pt_def dot_def)
  also have "\<dots> \<longleftrightarrow> 0 \<le> 4 * dot c p"
    by (simp add: dot_def sub_def scale_def algebra_simps)
  finally show ?thesis by simp
qed

lemma scale_neg_neg [simp]: "scale (-1) (scale (-1) p) = p"
  by (simp add: scale_def)

lemma dot_scale_right [simp]: "dot q (scale k p) = k * dot q p"
  by (simp add: dot_def scale_def algebra_simps)

lemma cross_scale_left: "cross (scale k p) q = scale k (cross p q)"
  by (simp add: cross_def scale_def algebra_simps)

lemma pick_sign_dot: "dot (pick_sign c a1) (pick_sign c a1) = dot a1 a1"
  by (simp add: pick_sign_def)

lemma pick_sign_orth: "dot a1 n = 0 \<Longrightarrow> dot (pick_sign c a1) n = 0"
  by (simp add: pick_sign_def)

lemma pick_sign_near: "0 \<le> dot c (pick_sign c a1)"
proof (cases "distance c a1 > distance c (scale (-1) a1)")
  case True
  then have "distance c (scale (-1) a1) \<le> distance c (scale (-1) (scale (-1) a1))" by simp
  then have "0 \<le> dot c (scale (-1) a1)" by (simp only: distance_neg_iff)
  with True show ?thesis by (simp add: pick_sign_def)
next
  case False
  then have "distance c a1 \<le> distance c (scale (-1) a1)" by simp
  then have "0 \<le> dot c a1" by (simp only: distance_neg_iff)
  with False show ?thesis by (simp add: pick_sign_def)
qed

lemma getSpanVectors_eq:
  "getSpanVectors n c d =
     (normalize_pt (pick_sign c (candidate n c d)),
      normalize_pt (cross (pick_sign c (candidate n c d)) n))"
  by (simp add: getSpanVectors_def Let_def pick_sign_def candidate_def)

lemma candidate_orth: "dot (candidate n c d) n = 0"
  by (simp add: candidate_def)

lemma candidate_nonzero:
  assumes "dot n n = 1" "dot c c = 1" "dot d d = 1" "dot c d = 0"
  shows "0 < dot (candidate n c d) (candidate n c d)"
proof (cases "norm_pt (cross d n) < 0.001")
  case False
  then have "0 < norm_pt (cross d n)" by simp
  then have "0 < dot (cross d n) (cross d n)" by (simp add: norm_pt_pos_iff)
  with False show ?thesis by (simp add: candidate_def)
next
  case True
  have "(norm_pt (cross d n))\<^sup>2 < (0.001)\<^sup>2"
    using True by (intro power_strict_mono) simp_all
  then have "dot (cross d n) (cross d n) < (0.001)\<^sup>2" by (simp only: norm_pt_sq)
  also have "(0.001 :: real)\<^sup>2 < 1" by (simp add: power2_eq_square)
  finally have "dot (cross d n) (cross d n) < 1" .
  then have dn: "0 < (dot n d)\<^sup>2"
    using assms by (simp add: dot_cross_cross dot_commute[of d n])
  from bessel2[OF assms(2,3,4), of n] assms(1) dn have cn: "(dot n c)\<^sup>2 < 1" by linarith
  have "dot (cross (cross c n) n) (cross (cross c n) n) = dot (cross c n) (cross c n)"
    using assms(1) by (simp add: dot_cross_cross[of "cross c n" n])
  also have "\<dots> = 1 - (dot n c)\<^sup>2"
    using assms by (simp add: dot_cross_cross dot_commute[of c n])
  finally show ?thesis using True cn by (simp add: candidate_def)
qed

subsection \<open>The tables and the size of the mesh\<close>

lemma length_calc_dists [simp]: "length (calc_dists pp) = length pp - 1"
  by (simp add: calc_dists_def)


lemma process_radius_length:
  "process_radius radius n = Inr rad \<Longrightarrow> length rad = n"
  by (auto simp: process_radius_def split: radius_arg.splits if_splits)

lemma make_env_Inr:
  assumes "process_radius radius (length pp) = Inr rad" "vertex_num \<noteq> 0" "2 \<le> length pp"
  shows "make_env pp radius vertex_num =
     Inr \<lparr>e_pp = pp, e_radius = rad,
          e_angle_cos = map cos (calc_angles vertex_num),
          e_angle_sin = map sin (calc_angles vertex_num),
          e_bufdist = min (Max (set rad)) (Min (set (calc_dists pp)) / 2.2),
          e_lclosed = (pp ! 0 = last pp),
          e_normals = calc_normals pp (pp ! 0 = last pp)\<rparr>"
proof -
  have "rad \<noteq> []" using process_radius_length[OF assms(1)] assms(3) by auto
  moreover have "length (calc_dists pp) \<noteq> 0"
    using assms(3) by simp
  then have "calc_dists pp \<noteq> []" by (simp only: length_0_conv not_False_eq_True)
  ultimately show ?thesis
    using assms(1,2) by (simp add: make_env_def np_max_def np_min_def Let_def)
qed

lemma make_env_InrD:
  assumes "make_env pp radius vertex_num = Inr e"
  shows "\<exists>rad. process_radius radius (length pp) = Inr rad" "vertex_num \<noteq> 0" "2 \<le> length pp"
proof -
  show "\<exists>rad. process_radius radius (length pp) = Inr rad"
    using assms by (auto simp: make_env_def split: sum.splits)
  show "vertex_num \<noteq> 0"
    using assms by (auto simp: make_env_def split: sum.splits if_splits)
  have "calc_dists pp \<noteq> []"
    using assms by (auto simp: make_env_def np_min_def Let_def split: sum.splits if_splits)
  then have "length pp - 1 \<noteq> 0"
    using length_calc_dists[of pp] by (metis length_0_conv)
  then show "2 \<le> length pp" by arith
qed

lemma make_env_fields:
  assumes "make_env pp radius vertex_num = Inr e"
  shows "e_pp e = pp"
    and "process_radius radius (length pp) = Inr (e_radius e)"
    and "e_angle_cos e = map cos (calc_angles vertex_num)"
    and "e_angle_sin e = map sin (calc_angles vertex_num)"
    and "e_bufdist e = min (Max (set (e_radius e))) (Min (set (calc_dists pp)) / 2.2)"
    and "e_lclosed e = (pp ! 0 = last pp)"
    and "e_normals e = calc_normals pp (pp ! 0 = last pp)"
proof -
  from make_env_InrD[OF assms] obtain rad where
    rad: "process_radius radius (length pp) = Inr rad" and v: "vertex_num \<noteq> 0" and n: "2 \<le> length pp"
    by blast
  from make_env_Inr[OF rad v n] assms
  have e: "e = \<lparr>e_pp = pp, e_radius = rad,
          e_angle_cos = map cos (calc_angles vertex_num),
          e_angle_sin = map sin (calc_angles vertex_num),
          e_bufdist = min (Max (set rad)) (Min (set (calc_dists pp)) / 2.2),
          e_lclosed = (pp ! 0 = last pp),
          e_normals = calc_normals pp (pp ! 0 = last pp)\<rparr>" by simp
  show "e_pp e = pp" "process_radius radius (length pp) = Inr (e_radius e)"
    "e_angle_cos e = map cos (calc_angles vertex_num)"
    "e_angle_sin e = map sin (calc_angles vertex_num)"
    "e_bufdist e = min (Max (set (e_radius e))) (Min (set (calc_dists pp)) / 2.2)"
    "e_lclosed e = (pp ! 0 = last pp)"
    "e_normals e = calc_normals pp (pp ! 0 = last pp)"
    by (simp_all add: e rad)
qed

lemma make_env_tables:
  "make_env pp radius vertex_num = Inr e \<Longrightarrow> tables_ok (length (calc_angles vertex_num)) e"
  by (simp add: tables_ok_def make_env_fields)

lemma length_calc_angles:
  assumes "1 \<le> v" "v \<le> 62831"
  shows "length (calc_angles v) = nat v"
proof -
  let ?x = "(pi * 2 - 0.0001) / (pi * 2 / real_of_int v)"
  have v: "0 < real_of_int v" "real_of_int v \<le> 62831" using assms by simp_all
  have x: "?x = real_of_int v - real_of_int v * 0.0001 / (2 * pi)"
    using v by (simp add: field_simps)
  have "0 \<le> real_of_int v * 0.0001 / (2 * pi)" using v by simp
  moreover have "real_of_int v * 0.0001 / (2 * pi) < 1"
    using v pi_bounds(1) by (simp add: field_simps)
  ultimately have "\<lceil>?x\<rceil> = v"
    unfolding x by (intro ceiling_unique) simp_all
  then show ?thesis by (simp add: calc_angles_def arange_def)
qed

lemma length_calc_angles_62832: "length (calc_angles 62832) = 62831"
proof -
  let ?x = "(pi * 2 - 0.0001) / (pi * 2 / real_of_int 62832)"
  have x: "?x = 62832 - 6.2832 / (2 * pi)"
    by (simp add: field_simps)
  have "1 < 6.2832 / (2 * pi)"
    using pi_bounds(2) by (simp add: field_simps)
  moreover have "6.2832 / (2 * pi) < 2"
    using pi_bounds(1) by (simp add: field_simps)
  ultimately have "\<lceil>?x\<rceil> = 62831"
    unfolding x by (intro ceiling_unique) simp_all
  then show ?thesis by (simp add: calc_angles_def arange_def)
qed

lemma length_calc_angles_large:
  assumes "62832 \<le> v"
  shows "length (calc_angles v) < nat v"
proof -
  let ?x = "(pi * 2 - 0.0001) / (pi * 2 / real_of_int v)"
  have v: "62832 \<le> real_of_int v" using assms by simp
  have x: "?x = real_of_int v - real_of_int v * 0.0001 / (2 * pi)"
    using v by (simp add: field_simps)
  have "2 * pi \<le> real_of_int v * 0.0001"
    using v pi_bounds(2) by simp
  then have "1 \<le> real_of_int v * 0.0001 / (2 * pi)"
    by (simp add: field_simps)
  then have "?x \<le> real_of_int (v - 1)"
    unfolding x by simp
  then have "\<lceil>?x\<rceil> \<le> v - 1"
    by (simp only: ceiling_le_iff)
  then show ?thesis
    using assms by (simp add: calc_angles_def arange_def)
qed

lemma length_calc_angles_100000: "length (calc_angles 100000) = 99999"
proof -
  let ?x = "(pi * 2 - 0.0001) / (pi * 2 / real_of_int 100000)"
  have x: "?x = 100000 - 10 / (2 * pi)"
    by (simp add: field_simps)
  have "1 < 10 / (2 * pi)"
    using pi_bounds(2) by (simp add: field_simps)
  moreover have "10 / (2 * pi) < 2"
    using pi_bounds(1) by (simp add: field_simps)
  ultimately have "\<lceil>?x\<rceil> = 99999"
    unfolding x by (intro ceiling_unique) simp_all
  then show ?thesis by (simp add: calc_angles_def arange_def)
qed

lemma build_faces_length:
  assumes "1 \<le> v" "2 \<le> n"
  shows "\<exists>fs. build_faces n v = Inr fs \<and> length fs = (n - 1) * nat v"
proof -
  have m: "1 \<le> nat v" "int (nat v) = v" using assms by simp_all
  have "\<forall>xs \<in> set (map (quads_of_round (nat v)) [0..<n - 1]). length xs = nat v"
    using m(1) by (auto simp: length_quads_of_round)
  from length_concat_uniform[OF this] build_faces_eq[OF m(1) assms(2)] m(2)
  show ?thesis by simp
qed

lemma lineToMesh_counts:
  assumes "make_env pp radius v = Inr e" "1 \<le> v"
  shows "\<exists>msh. lineToMesh pp radius v = Inr msh \<and>
           mesh_vertices msh = st_vertices (assemble e) \<and>
           length (mesh_vertices msh) = st_n_cylinders (assemble e) * length (calc_angles v) \<and>
           length (mesh_faces msh) = (st_n_cylinders (assemble e) - 1) * nat v"
proof -
  have pp: "e_pp e = pp" and n: "2 \<le> length pp"
    using assms(1) by (simp_all add: make_env_fields make_env_InrD)
  have "rings_ok (length (calc_angles v)) (assemble e)"
    using make_env_tables[OF assms(1)] n pp by (intro rings_ok_assemble) simp_all
  then have len: "length (st_vertices (assemble e)) = st_n_cylinders (assemble e) * length (calc_angles v)"
    by (simp add: rings_ok_def)
  have "2 \<le> st_n_cylinders (assemble e)"
    using n pp by (auto simp: assemble_n)
  from build_faces_length[OF assms(2) this] obtain fs where
    "build_faces (st_n_cylinders (assemble e)) v = Inr fs"
    "length fs = (st_n_cylinders (assemble e) - 1) * nat v" by blast
  then show ?thesis
    using assms(1) len by (simp add: lineToMesh_def Let_def)
qed

subsection \<open>The position of a ring in the vertex list\<close>



lemma ring_at_append_skip:
  assumes "length xs = j * m"
  shows "ring_at m (j + k) (xs @ ys) = ring_at m k ys"
  using assms by (simp add: ring_at_def algebra_simps)











lemma lineToMesh_vertices:
  assumes "make_env pp radius v = Inr e" "1 \<le> v"
  shows "\<exists>msh. lineToMesh pp radius v = Inr msh \<and> mesh_vertices msh = st_vertices (assemble e)"
  using lineToMesh_counts[OF assms] by blast






lemma example_env: "make_env example_curve (Scalar 1) 8 = Inr example_env"
  using make_env_Inr[of "Scalar 1" example_curve "[1, 1, 1]" 8]
  by (simp add: example_env_def example_curve_def process_radius_def)

subsection \<open>Failing and returning calls\<close>

lemma lineToMesh_short_curve:
  assumes "length pp < 2"
  shows "lineToMesh pp radius v \<in> {Inl RadiiLenError, Inl ZeroDivisionError, Inl EmptyReductionError}"
proof -
  have "length (calc_dists pp) = 0"
    using assms by simp
  then have "calc_dists pp = []"
    by (simp only: length_0_conv)
  then have "make_env pp radius v \<in> {Inl RadiiLenError, Inl ZeroDivisionError, Inl EmptyReductionError}"
    by (auto simp: make_env_def process_radius_def np_max_def np_min_def Let_def
        split: radius_arg.splits sum.splits if_splits)
  then show ?thesis by (auto simp: lineToMesh_def)
qed

lemma lineToMesh_faces:
  assumes "lineToMesh pp radius v = Inr msh" "make_env pp radius v = Inr e"
  shows "build_faces (st_n_cylinders (assemble e)) v = Inr (mesh_faces msh)"
  using assms by (auto simp: lineToMesh_def Let_def split: sum.splits)

lemma lineToMesh_zero_vertex_num:
  assumes "process_radius radius (length pp) = Inr rad"
  shows "lineToMesh pp radius 0 = Inl ZeroDivisionError"
  using assms by (simp add: lineToMesh_def make_env_def)

lemma lineToMesh_returns:
  assumes "2 \<le> length pp" "process_radius radius (length pp) = Inr rad" "1 \<le> v"
  shows "\<not> isl (lineToMesh pp radius v)"
proof -
  have "v \<noteq> 0" using assms(3) by simp
  from make_env_Inr[OF assms(2) this assms(1)] obtain e where "make_env pp radius v = Inr e"
    by blast
  from lineToMesh_counts[OF this assms(3)] show ?thesis by auto
qed

lemma open_curve_counts:
  assumes "make_env pp radius v = Inr e" "pp ! 0 \<noteq> last pp" "1 \<le> v"
  shows "\<exists>msh. lineToMesh pp radius v = Inr msh \<and>
     length (mesh_vertices msh) =
       (5 + 2 * (length pp - 1) + (length pp - 2) + 6) * length (calc_angles v) \<and>
     length (mesh_faces msh) = (5 + 2 * (length pp - 1) + (length pp - 2) + 6 - 1) * nat v"
proof -
  have pp: "e_pp e = pp" and n: "2 \<le> length pp" and op: "\<not> e_lclosed e"
    using assms(1,2) by (simp_all add: make_env_fields make_env_InrD)
  have "st_n_cylinders (assemble e) = 5 + 2 * (length pp - 1) + (length pp - 2) + 6"
    using n pp op by (simp add: assemble_n)
  with lineToMesh_counts[OF assms(1,3)] show ?thesis by auto
qed

text \<open>
  For \<^verbatim>\<open>vertex_num\<close> from 3 to 62831 an open line has
  \<open>5 + 2 * (N - 1) + (N - 2) + 6\<close> rings of \<^verbatim>\<open>vertex_num\<close> vertices, and
  \<^verbatim>\<open>vertex_num\<close> quads between two consecutive rings.
\<close>

lemma open_curve_counts_in_range:
  assumes "make_env pp radius v = Inr e" "pp ! 0 \<noteq> last pp" "3 \<le> v" "v \<le> 62831"
  shows "\<exists>msh. lineToMesh pp radius v = Inr msh \<and>
     length (mesh_vertices msh) = (5 + 2 * (length pp - 1) + (length pp - 2) + 6) * nat v \<and>
     length (mesh_faces msh) = (5 + 2 * (length pp - 1) + (length pp - 2) + 6 - 1) * nat v"
proof -
  have "1 \<le> v" using assms(3) by simp
  from open_curve_counts[OF assms(1,2) this] length_calc_angles[OF this assms(4)]
  show ?thesis by simp
qed

lemma two_points_env: "\<exists>e. make_env two_points (Scalar 1) 100000 = Inr e"
  using make_env_Inr[of "Scalar 1" two_points "[1, 1]" 100000]
  by (simp add: two_points_def process_radius_def)

lemma unat_of_nat_le: "unat (of_nat x :: uint32) \<le> x"
  by (simp add: unat_of_nat)

text \<open>Below \<open>2\<^sup>3\<^sup>2\<close> the stored index is the number itself.\<close>

lemma unat_of_nat_index: "x < 2 ^ 32 \<Longrightarrow> unat (of_nat x :: uint32) = x"
  by (simp add: unat_of_nat)

lemma quads_of_round_bound:
  assumes "1 \<le> m" "k + 2 \<le> n" "(w0, w1, w2, w3) \<in> set (quads_of_round m k)"
  shows "unat w0 < n * m \<and> unat w1 < n * m \<and> unat w2 < n * m \<and> unat w3 < n * m"
proof -
  have km: "k * m + 2 * m \<le> n * m"
    using assms(2) by (metis add_mult_distrib mult_le_mono1)
  have b: "unat (of_nat x :: uint32) < n * m" if "x < k * m + 2 * m" for x
    using that km unat_of_nat_le[of x] by linarith
  from assms(3) consider
    j where "j < m - 1" "w0 = of_nat (k * m + j)" "w1 = of_nat (k * m + j + 1)"
      "w2 = of_nat (k * m + m + j + 1)" "w3 = of_nat (k * m + m + j)"
    | "w0 = of_nat (k * m + m - 1)" "w1 = of_nat (k * m)" "w2 = of_nat (k * m + m)"
      "w3 = of_nat (k * m + 2 * m - 1)"
    by (auto simp: quads_of_round_def)
  then show ?thesis
  proof cases
    case 1
    have "k * m + j < k * m + 2 * m" "k * m + j + 1 < k * m + 2 * m"
      "k * m + m + j + 1 < k * m + 2 * m" "k * m + m + j < k * m + 2 * m"
      using 1(1) by simp_all
    then show ?thesis unfolding 1(2-5) by (intro conjI b)
  next
    case 2
    have "k * m + m - 1 < k * m + 2 * m" "k * m < k * m + 2 * m"
      "k * m + m < k * m + 2 * m" "k * m + 2 * m - 1 < k * m + 2 * m"
      using assms(1) by simp_all
    then show ?thesis unfolding 2 by (intro conjI b)
  qed
qed

text \<open>
  Every index of every quad of the face list is below \<open>n * m\<close>, for \<open>n\<close> rings and
  \<^verbatim>\<open>vertex_num = m \<ge> 1\<close>.
\<close>

lemma face_indices_in_range:
  assumes "1 \<le> m" "build_faces n (int m) = Inr fs" "(w0, w1, w2, w3) \<in> set fs"
  shows "unat w0 < n * m \<and> unat w1 < n * m \<and> unat w2 < n * m \<and> unat w3 < n * m"
proof -
  have n: "2 \<le> n"
  proof (rule ccontr)
    assume "\<not> 2 \<le> n"
    then have "nat (int n - 1) = 0" by simp
    then have "build_faces n (int m) = Inl EmptyConcatenateError"
      by (simp add: build_faces_def parts_def py_range_def)
    with assms(2) show False by simp
  qed
  from build_faces_eq[OF assms(1) n] assms(2)
  have "fs = concat (map (quads_of_round m) [0..<n - 1])" by simp
  with assms(3) obtain k where "k < n - 1" "(w0, w1, w2, w3) \<in> set (quads_of_round m k)"
    by auto
  then show ?thesis
    using quads_of_round_bound[OF assms(1), of k n w0 w1 w2 w3] by simp
qed

lemma last_quad_in_faces:
  assumes "1 \<le> m" "2 \<le> n" "build_faces n (int m) = Inr fs"
  shows "\<exists>w0 w1 w2. (w0, w1, w2, of_nat (n * m - 1)) \<in> set fs"
proof -
  obtain k where k: "n = k + 2"
    using assms(2) by (metis add.commute le_Suc_ex)
  have "k * m + 2 * m - 1 = n * m - 1"
    by (simp add: k algebra_simps)
  then have "(of_nat (k * m + m - 1), of_nat (k * m), of_nat (k * m + m), of_nat (n * m - 1))
      \<in> set (quads_of_round m k)"
    by (simp add: quads_of_round_def)
  moreover have "k \<in> set [0..<n - 1]" by (simp add: k)
  moreover have "fs = concat (map (quads_of_round m) [0..<n - 1])"
    using build_faces_eq[OF assms(1,2)] assms(3) by simp
  ultimately show ?thesis by (simp only: set_concat set_map) blast
qed











subsection \<open>The model at small inputs\<close>

lemma build_faces_2_3:
  "build_faces 2 3 = Inr [(0, 1, 4, 3), (1, 2, 5, 4), (2, 0, 3, 5)]"
  by (simp add: build_faces_def parts_def oneRound_def py_range_def firstFace_def lastFace_def
      upt_rec)

lemma build_faces_one_ring: "build_faces 1 3 = Inl EmptyConcatenateError"
  by (simp add: build_faces_def parts_def py_range_def)

lemma getSpanVectors_initial:
  "getSpanVectors (Point 0 0 (-1)) (Point 0 0 1) (Point 0 1 0) = (Point (-1) 0 0, Point 0 (-1) 0)"
  by (simp add: getSpanVectors_def Let_def cross_def norm_pt_def distance_def sub_def scale_def
      normalize_pt_def)

lemma getSpanVectors_fallback:
  "getSpanVectors (Point 0 1 0) (Point 0 0 1) (Point 0 1 0) = (Point 0 0 1, Point (-1) 0 0)"
  by (simp add: getSpanVectors_def Let_def cross_def norm_pt_def distance_def sub_def scale_def
      normalize_pt_def)

lemma example_env_values:
  "e_bufdist example_env = 5 / 11"
  "e_normals example_env = [Point 0 0 (-1), Point 0 0 (-1), Point 0 0 1]"
  "e_lclosed example_env = False"
proof -
  have d: "calc_dists example_curve = [1, 1]"
    by (simp add: example_curve_def calc_dists_def distance_def norm_pt_def sub_def)
  have r: "process_radius (Scalar 1) (length example_curve) = Inr (e_radius example_env)"
    by (rule make_env_fields(2)[OF example_env])
  then have r': "e_radius example_env = [1, 1, 1]"
    by (simp add: process_radius_def example_curve_def)
  show "e_bufdist example_env = 5 / 11"
    by (simp add: make_env_fields(5)[OF example_env] d r')
  show c: "e_lclosed example_env = False"
    by (simp add: make_env_fields(6)[OF example_env] example_curve_def)
  show "e_normals example_env = [Point 0 0 (-1), Point 0 0 (-1), Point 0 0 1]"
    unfolding make_env_fields(7)[OF example_env]
    by (simp add: example_curve_def calc_normals_def normalize_pt_def norm_pt_def sub_def scale_def)
qed

lemma example_mesh_size:
  "\<exists>msh. lineToMesh example_curve (Scalar 1) 8 = Inr msh \<and>
         length (mesh_vertices msh) = 16 * 8 \<and> length (mesh_faces msh) = 15 * 8"
proof -
  have op: "example_curve ! 0 \<noteq> last example_curve" by (simp add: example_curve_def)
  from open_curve_counts_in_range[OF example_env op] show ?thesis
    by (simp add: example_curve_def)
qed

section \<open>The claims\<close>

subsection \<open>C1: the number of vertices and faces of an open line\<close>

text \<open>
  Claim C1 at \<^verbatim>\<open>vertex_num = 100000\<close>: for the open line of two points, radius 1, the
  mesh has 13 rings of 99999 vertices each, not of 100000, and \<open>12 * 100000\<close> quads. The
  angle table \<^verbatim>\<open>np.arange(0, pi*2-0.0001, pi*2/vertex_num)\<close> loses its last angle as soon
  as the step \<^verbatim>\<open>pi*2/vertex_num\<close> is below 0.0001, that is from
  \<^verbatim>\<open>vertex_num = 62832\<close> on.
\<close>

theorem vertex_count_100000:
  "\<exists>msh. lineToMesh two_points (Scalar 1) 100000 = Inr msh \<and>
         length (mesh_vertices msh) = 13 * 99999 \<and>
         length (mesh_faces msh) = 12 * 100000"
proof -
  from two_points_env obtain e where e: "make_env two_points (Scalar 1) 100000 = Inr e" ..
  have op: "two_points ! 0 \<noteq> last two_points" by (simp add: two_points_def)
  from open_curve_counts[OF e op] show ?thesis
    by (simp add: length_calc_angles_100000 two_points_def)
qed

subsection \<open>C2: the tangents\<close>




subsection \<open>C3: what the call checks of its input\<close>

text \<open>
  Claim C3, amended. The only check of the input is the radius check. A line of fewer than
  two points always makes the call fail, with the error of the first step that fails: the
  radius check, the division by \<^verbatim>\<open>vertex_num = 0\<close>, or numpy's error for the maximum
  or minimum of an empty array. \<^verbatim>\<open>vertex_num = 0\<close> fails with
  \<^verbatim>\<open>ZeroDivisionError\<close> once the radius check has passed. \<^verbatim>\<open>vertex_num = 1\<close> and
  \<^verbatim>\<open>vertex_num = 2\<close> are accepted: with at least two points and a radius that passes
  the check, a mesh is returned.
\<close>

theorem input_checks:
  "(length pp < 2 \<longrightarrow>
      lineToMesh pp radius v \<in> {Inl RadiiLenError, Inl ZeroDivisionError, Inl EmptyReductionError}) \<and>
   (process_radius radius (length pp) = Inr rad \<longrightarrow>
      lineToMesh pp radius 0 = Inl ZeroDivisionError) \<and>
   (2 \<le> length pp \<and> process_radius radius (length pp) = Inr rad \<and> (v = 1 \<or> v = 2) \<longrightarrow>
      \<not> isl (lineToMesh pp radius v))"
proof (intro conjI impI)
  assume "length pp < 2"
  then show "lineToMesh pp radius v \<in> {Inl RadiiLenError, Inl ZeroDivisionError, Inl EmptyReductionError}"
    by (rule lineToMesh_short_curve)
next
  assume "process_radius radius (length pp) = Inr rad"
  then show "lineToMesh pp radius 0 = Inl ZeroDivisionError"
    by (rule lineToMesh_zero_vertex_num)
next
  assume a: "2 \<le> length pp \<and> process_radius radius (length pp) = Inr rad \<and> (v = 1 \<or> v = 2)"
  then have "1 \<le> v" by auto
  with a show "\<not> isl (lineToMesh pp radius v)"
    using lineToMesh_returns[of pp radius rad v] by simp
qed

text \<open>The three parts of the amended claim at concrete inputs.\<close>

theorem input_checks_witness:
  "length [Point 0 0 0] < 2 \<and> lineToMesh [Point 0 0 0] (Scalar 1) 8 = Inl EmptyReductionError \<and>
   process_radius (Scalar 1) (length two_points) = Inr [1, 1] \<and>
   lineToMesh two_points (Scalar 1) 0 = Inl ZeroDivisionError \<and>
   2 \<le> length two_points \<and> \<not> isl (lineToMesh two_points (Scalar 1) 1)"
proof -
  have r: "process_radius (Scalar 1) (length two_points) = Inr [1, 1]"
    by (simp add: two_points_def process_radius_def)
  have n: "2 \<le> length two_points" by (simp add: two_points_def)
  have "lineToMesh [Point 0 0 0] (Scalar 1) 8 \<noteq> Inl RadiiLenError"
    "lineToMesh [Point 0 0 0] (Scalar 1) 8 \<noteq> Inl ZeroDivisionError"
    by (simp_all add: lineToMesh_def make_env_def process_radius_def np_max_def np_min_def
        calc_dists_def)
  with input_checks[of "[Point 0 0 0]" "Scalar 1" 8 "[1]"]
  have s: "lineToMesh [Point 0 0 0] (Scalar 1) 8 = Inl EmptyReductionError" by simp
  from input_checks[of two_points "Scalar 1" 1 "[1, 1]"] r n s show ?thesis by simp
qed

text \<open>
  The claim as it was stated has \<^verbatim>\<open>vertex_num < 3\<close> rejected. It is not: a line of two
  points with radius 1 and \<^verbatim>\<open>vertex_num = 2\<close> yields a mesh.
\<close>

theorem vertex_num_2_accepted:
  "\<not> isl (lineToMesh two_points (Scalar 1) 2)"
  using lineToMesh_returns[of two_points "Scalar 1" "[1, 1]" 2]
  by (simp add: two_points_def process_radius_def)

subsection \<open>C4: the quads of the face list\<close>

text \<open>
  Claim C4. For a ring size \<open>m \<ge> 1\<close> (\<^verbatim>\<open>vertex_num\<close>) and \<open>n \<ge> 2\<close> rings
  (\<^verbatim>\<open>n_cylinders\<close>), the face list is built without error, has \<open>(n - 1) * m\<close> quads,
  and consists of one round per \<open>k < n - 1\<close>: round \<open>k\<close> occupies the positions
  \<open>k * m, \<dots>, k * m + m - 1\<close>; its quad \<open>j < m - 1\<close> is
  \<open>(j, j + 1, m + j + 1, m + j)\<close> and its last quad is the closing quad
  \<open>(m - 1, 0, m, 2 * m - 1)\<close>, each index offset by \<open>k * m\<close>. The indices are the
  \<^verbatim>\<open>uint32\<close> values of these numbers.
\<close>

theorem faces_quads:
  assumes "1 \<le> m" "2 \<le> n"
  shows "\<exists>fs. build_faces n (int m) = Inr fs \<and> length fs = (n - 1) * m \<and>
     (\<forall>k<n - 1.
        (\<forall>j<m - 1. fs ! (k * m + j) =
            (of_nat (k * m + j), of_nat (k * m + j + 1),
             of_nat (k * m + m + j + 1), of_nat (k * m + m + j))) \<and>
        fs ! (k * m + (m - 1)) =
            (of_nat (k * m + m - 1), of_nat (k * m), of_nat (k * m + m), of_nat (k * m + 2 * m - 1)))"
proof -
  let ?qss = "map (quads_of_round m) [0..<n - 1]"
  have uni: "\<forall>xs \<in> set ?qss. length xs = m"
    using assms(1) by (auto simp: length_quads_of_round)
  have nth: "concat ?qss ! (k * m + j) = quads_of_round m k ! j" if "k < n - 1" "j < m" for k j
    using nth_concat_uniform[OF uni, of k j] that by simp
  have len: "length (concat ?qss) = (n - 1) * m"
    using length_concat_uniform[OF uni] by simp
  have a: "quads_of_round m k ! j = (of_nat (k * m + j), of_nat (k * m + j + 1),
             of_nat (k * m + m + j + 1), of_nat (k * m + m + j))" if "j < m - 1" for k j
    using that by (simp add: quads_of_round_def nth_append)
  have b: "quads_of_round m k ! (m - 1) = (of_nat (k * m + m - 1), of_nat (k * m), of_nat (k * m + m), of_nat (k * m + 2 * m - 1))" for k
    by (simp add: quads_of_round_def nth_append)
  show ?thesis
  proof (intro exI conjI allI impI)
    show "build_faces n (int m) = Inr (concat ?qss)"
      by (rule build_faces_eq[OF assms])
    show "length (concat ?qss) = (n - 1) * m"
      by (rule len)
  next
    fix k j assume k: "k < n - 1" and j: "j < m - 1"
    then have "j < m" by simp
    from nth[OF k this] a[OF j]
    show "concat ?qss ! (k * m + j) =
            (of_nat (k * m + j), of_nat (k * m + j + 1),
             of_nat (k * m + m + j + 1), of_nat (k * m + m + j))"
      by (simp only:)
  next
    fix k assume k: "k < n - 1"
    have "m - 1 < m" using assms(1) by simp
    from nth[OF k this] b
    show "concat ?qss ! (k * m + (m - 1)) =
            (of_nat (k * m + m - 1), of_nat (k * m), of_nat (k * m + m), of_nat (k * m + 2 * m - 1))"
      by (simp only:)
  qed
qed

text \<open>The same at three vertices per ring and two rings.\<close>

theorem faces_quads_witness:
  "(1::nat) \<le> 3 \<and> (2::nat) \<le> 2 \<and>
   (\<exists>fs. build_faces 2 (int 3) = Inr fs \<and> length fs = (2 - 1) * 3 \<and>
     (\<forall>k<2 - 1.
        (\<forall>j<3 - 1. fs ! (k * 3 + j) =
            (of_nat (k * 3 + j), of_nat (k * 3 + j + 1),
             of_nat (k * 3 + 3 + j + 1), of_nat (k * 3 + 3 + j))) \<and>
        fs ! (k * 3 + (3 - 1)) =
            (of_nat (k * 3 + 3 - 1), of_nat (k * 3), of_nat (k * 3 + 3), of_nat (k * 3 + 2 * 3 - 1))))"
  using faces_quads[of 3 2] by simp

subsection \<open>C5: the joint ring after a line piece\<close>



subsection \<open>C6: the rings of a closed line\<close>




subsection \<open>C7: the propagated frame is orthonormal\<close>

text \<open>
  Claim C7. For every unit tangent and every orthonormal previous pair
  \<open>(prevA, prevB)\<close>, whether or not the tangent is (nearly) parallel to \<open>prevB\<close>,
  \<^const>\<open>getSpanVectors\<close> returns two unit vectors that are orthogonal to each other and to
  the tangent, and the first of them is at least as close to \<open>prevA\<close> as its negation is.
  The function is total: no input makes it fail. (Exact real arithmetic.)
\<close>

theorem getSpanVectors_orthonormal:
  assumes "norm_pt tangent = 1" "norm_pt prevA = 1" "norm_pt prevB = 1" "dot prevA prevB = 0"
  shows "case getSpanVectors tangent prevA prevB of (a, b) \<Rightarrow>
           norm_pt a = 1 \<and> norm_pt b = 1 \<and> dot a b = 0 \<and> dot a tangent = 0 \<and> dot b tangent = 0
           \<and> distance prevA a \<le> distance prevA (scale (-1) a)"
proof -
  let ?A = "pick_sign prevA (candidate tangent prevA prevB)"
  let ?B = "cross ?A tangent"
  have u: "dot tangent tangent = 1" "dot prevA prevA = 1" "dot prevB prevB = 1"
    using assms by (simp_all add: norm_pt_eq_1_iff)
  have An: "dot ?A tangent = 0"
    by (rule pick_sign_orth[OF candidate_orth])
  have AA: "0 < dot ?A ?A"
    using candidate_nonzero[OF u assms(4)] by (simp add: pick_sign_dot)
  have BB: "0 < dot ?B ?B"
    using AA An u(1) by (simp add: dot_cross_cross)
  have "norm_pt (normalize_pt ?A) = 1" by (rule norm_normalize[OF AA])
  moreover have "norm_pt (normalize_pt ?B) = 1" by (rule norm_normalize[OF BB])
  moreover have "dot (normalize_pt ?A) (normalize_pt ?B) = 0"
    by (simp add: dot_normalize_left dot_normalize_right dot_commute[of ?A ?B])
  moreover have "dot (normalize_pt ?A) tangent = 0"
    using An by (simp add: dot_normalize_left)
  moreover have "dot (normalize_pt ?B) tangent = 0"
    by (simp add: dot_normalize_left)
  moreover have "distance prevA (normalize_pt ?A) \<le> distance prevA (scale (-1) (normalize_pt ?A))"
    using pick_sign_near[of prevA "candidate tangent prevA prevB"]
    by (simp add: distance_neg_iff dot_normalize_right)
  ultimately show ?thesis
    by (simp add: getSpanVectors_eq)
qed

text \<open>
  The same in the degenerate case: the tangent equals \<open>prevB\<close>, the first
  candidate is the zero vector and the fallback branch is taken.
\<close>

theorem getSpanVectors_orthonormal_witness:
  "norm_pt (Point 0 1 0) = 1 \<and> norm_pt (Point 0 0 1) = 1 \<and> norm_pt (Point 0 1 0) = 1 \<and>
   dot (Point 0 0 1) (Point 0 1 0) = 0 \<and>
   norm_pt (cross (Point 0 1 0) (Point 0 1 0)) < 0.001 \<and>
   (case getSpanVectors (Point 0 1 0) (Point 0 0 1) (Point 0 1 0) of (a, b) \<Rightarrow>
      norm_pt a = 1 \<and> norm_pt b = 1 \<and> dot a b = 0 \<and> dot a (Point 0 1 0) = 0 \<and> dot b (Point 0 1 0) = 0
      \<and> distance (Point 0 0 1) a \<le> distance (Point 0 0 1) (scale (-1) a))"
  using getSpanVectors_orthonormal[of "Point 0 1 0" "Point 0 0 1" "Point 0 1 0"]
  by (simp add: norm_pt_def dot_def cross_def)

subsection \<open>C8: a radius sequence of the wrong length\<close>

text \<open>
  Claim C8. When the radius is a sequence whose length differs from the number of points,
  the call fails with the \<^verbatim>\<open>ValueError\<close> of the radius check and returns no mesh,
  whatever the points and \<^verbatim>\<open>vertex_num\<close> are (also when a later step would fail).
\<close>

theorem radius_length_mismatch:
  "length rs \<noteq> length pp \<Longrightarrow> lineToMesh pp (Sequence rs) vertex_num = Inl RadiiLenError"
  by (simp add: lineToMesh_def make_env_def process_radius_def)

text \<open>The same for two radii and the three-point example line.\<close>

theorem radius_length_mismatch_witness:
  "length [1 :: real, 1] \<noteq> length example_curve \<and>
   lineToMesh example_curve (Sequence [1, 1]) 8 = Inl RadiiLenError"
  using radius_length_mismatch[of "[1, 1]" example_curve 8]
  by (simp add: example_curve_def)

subsection \<open>C9: the range of the face indices\<close>

text \<open>
  Claim C9 at \<^verbatim>\<open>vertex_num = 100000\<close>: for the open line of two points, radius 1, a
  quad of the mesh has an index that is not below the number of vertices of the mesh. (The
  largest index is \<open>13 * 100000 - 1\<close>, the vertex list has only \<open>13 * 99999\<close> entries.)
\<close>

theorem face_index_beyond_vertices_100000:
  "\<exists>msh. lineToMesh two_points (Scalar 1) 100000 = Inr msh \<and>
         (\<exists>w0 w1 w2 w3. (w0, w1, w2, w3) \<in> set (mesh_faces msh) \<and>
            length (mesh_vertices msh) \<le> unat w3)"
proof -
  from two_points_env obtain e where e: "make_env two_points (Scalar 1) 100000 = Inr e" ..
  have op: "two_points ! 0 \<noteq> last two_points" by (simp add: two_points_def)
  have pp: "e_pp e = two_points" and cl: "\<not> e_lclosed e"
    using e op by (simp_all add: make_env_fields)
  have n: "st_n_cylinders (assemble e) = 13"
    using pp cl by (simp add: assemble_n two_points_def)
  from lineToMesh_counts[OF e] obtain msh where
    msh: "lineToMesh two_points (Scalar 1) 100000 = Inr msh"
      "length (mesh_vertices msh) = 13 * 99999"
    by (auto simp: n length_calc_angles_100000)
  have f: "build_faces 13 (int 100000) = Inr (mesh_faces msh)"
    using msh(1) e n by (auto simp: lineToMesh_def Let_def split: sum.splits)
  have "(1::nat) \<le> 100000" "(2::nat) \<le> 13" by simp_all
  from last_quad_in_faces[OF this f] obtain w0 w1 w2 where
    q: "(w0, w1, w2, of_nat (13 * 100000 - 1)) \<in> set (mesh_faces msh)" by blast
  have "13 * 99999 \<le> unat (of_nat (13 * 100000 - 1) :: uint32)"
    by (simp add: unat_of_nat)
  with q msh show ?thesis by metis
qed

subsection \<open>C10: the rings at the tips of the caps\<close>



end
